theory Spec2Isabelle
  imports Complex_Main
begin

section \<open>Python values and strings\<close>

text \<open>
  The similarity engine (\<^verbatim>\<open>similarity_engine.py\<close>) works on case records read with
  \<^verbatim>\<open>json.load\<close>. A JSON value is \<^verbatim>\<open>None\<close>, a bool, an int, a float, a string, a list or a
  dict. A dict keeps its insertion order (\<^verbatim>\<open>.values()\<close> iterates in it), so it is an
  association list; its keys are distinct in Python, and lookup takes the first binding.
  A float is the rational number it denotes (\<^verbatim>\<open>NaN\<close> and the infinities are not JSON).

  A Python string is a sequence of code points. A \<open>char\<close> here is one code point below 256
  (Latin-1): the character classes below are Python's classes restricted to that range.
\<close>

datatype json =
    JNull
  | JBool bool
  | JInt int
  | JFloat rat
  | JStr string
  | JList "json list"
  | JDict "(string \<times> json) list"

text \<open>\<^verbatim>\<open>str.isspace\<close>, which is also \<^verbatim>\<open>\s\<close> of the \<^verbatim>\<open>re\<close> module on \<^verbatim>\<open>str\<close> patterns.\<close>

definition is_space :: "char \<Rightarrow> bool" where
  "is_space c = (let n = (of_char c :: nat) in
     (9 \<le> n \<and> n \<le> 13) \<or> (28 \<le> n \<and> n \<le> 32) \<or> n = 133 \<or> n = 160)"

text \<open>\<^verbatim>\<open>\d\<close>: the decimal digits; below 256 these are \<^verbatim>\<open>0\<close> to \<^verbatim>\<open>9\<close>.\<close>

definition is_digit :: "char \<Rightarrow> bool" where
  "is_digit c = (let n = (of_char c :: nat) in 48 \<le> n \<and> n \<le> 57)"

text \<open>\<^verbatim>\<open>[A-Z]\<close> without and with \<^verbatim>\<open>re.IGNORECASE\<close>.\<close>

definition is_upper :: "char \<Rightarrow> bool" where
  "is_upper c = (let n = (of_char c :: nat) in 65 \<le> n \<and> n \<le> 90)"

definition is_letter :: "char \<Rightarrow> bool" where
  "is_letter c = (let n = (of_char c :: nat) in (65 \<le> n \<and> n \<le> 90) \<or> (97 \<le> n \<and> n \<le> 122))"

text \<open>\<^verbatim>\<open>\w\<close>: the underscore and every character that \<^verbatim>\<open>str.isalnum\<close> accepts.\<close>

definition is_word :: "char \<Rightarrow> bool" where
  "is_word c = (let n = (of_char c :: nat) in
     (48 \<le> n \<and> n \<le> 57) \<or> (65 \<le> n \<and> n \<le> 90) \<or> n = 95 \<or> (97 \<le> n \<and> n \<le> 122) \<or>
     n = 170 \<or> n = 178 \<or> n = 179 \<or> n = 181 \<or> n = 185 \<or> n = 186 \<or>
     (188 \<le> n \<and> n \<le> 190) \<or> (192 \<le> n \<and> n \<le> 214) \<or> (216 \<le> n \<and> n \<le> 246) \<or> 248 \<le> n)"

text \<open>\<^verbatim>\<open>s.strip()\<close> removes leading and trailing whitespace.\<close>

definition strip :: "string \<Rightarrow> string" where
  "strip s = rev (dropWhile is_space (rev (dropWhile is_space s)))"

text \<open>\<^verbatim>\<open>' '.join(parts)\<close>.\<close>

fun join_sp :: "string list \<Rightarrow> string" where
  "join_sp [] = []"
| "join_sp [p] = p"
| "join_sp (p # q # ps) = p @ CHR '' '' # join_sp (q # ps)"

text \<open>Truth value of a Python object: \<^verbatim>\<open>if v\<close>.\<close>

fun truthy :: "json \<Rightarrow> bool" where
  "truthy JNull = False"
| "truthy (JBool b) = b"
| "truthy (JInt i) = (i \<noteq> 0)"
| "truthy (JFloat r) = (r \<noteq> 0)"
| "truthy (JStr s) = (s \<noteq> [])"
| "truthy (JList xs) = (xs \<noteq> [])"
| "truthy (JDict kvs) = (kvs \<noteq> [])"

text \<open>\<^verbatim>\<open>a or b\<close> on objects.\<close>

definition py_or :: "json \<Rightarrow> json \<Rightarrow> json" where
  "py_or a b = (if truthy a then a else b)"

text \<open>\<^verbatim>\<open>d.get(key, default)\<close> on a dict.\<close>

definition dict_get :: "(string \<times> json) list \<Rightarrow> string \<Rightarrow> json \<Rightarrow> json" where
  "dict_get kvs k d = (case map_of kvs k of Some v \<Rightarrow> v | None \<Rightarrow> d)"

text \<open>
  \<^verbatim>\<open>str(v)\<close>, which \<^verbatim>\<open>f"{v}"\<close> also yields for these types. The decimal numeral of an int
  and the constants are written out; the text of a float, a list or a dict (Python's
  \<^verbatim>\<open>repr\<close>) is a parameter \<open>rp\<close> of the model.
\<close>

fun digits_of :: "nat \<Rightarrow> string" where
  "digits_of n = (if n < 10 then [char_of (48 + n)] else digits_of (n div 10) @ [char_of (48 + n mod 10)])"

declare digits_of.simps [simp del]

definition str_of_int :: "int \<Rightarrow> string" where
  "str_of_int i = (if i < 0 then CHR ''-'' # digits_of (nat (- i)) else digits_of (nat i))"

fun py_str :: "(json \<Rightarrow> string) \<Rightarrow> json \<Rightarrow> string" where
  "py_str rp JNull = ''None''"
| "py_str rp (JBool b) = (if b then ''True'' else ''False'')"
| "py_str rp (JInt i) = str_of_int i"
| "py_str rp (JStr s) = s"
| "py_str rp v = rp v"

section \<open>Flattening a field\<close>

text \<open>
  \<^verbatim>\<open>flatten_field(value)\<close>: the tests are made in the source's order. Only the empty string
  is equal to \<^verbatim>\<open>''\<close>. A list is flattened element by element, and an element is kept
  when its text is non-empty and not blank; the values of a dict are not flattened but
  converted with \<^verbatim>\<open>str\<close>, the false ones dropped.
\<close>

fun flatten_field :: "(json \<Rightarrow> string) \<Rightarrow> json \<Rightarrow> string" where
  "flatten_field rp JNull = []"
| "flatten_field rp (JStr s) = (if s = [] then [] else s)"
| "flatten_field rp (JList xs) =
     join_sp (filter (\<lambda>flattened. flattened \<noteq> [] \<and> strip flattened \<noteq> []) (map (flatten_field rp) xs))"
| "flatten_field rp (JDict kvs) = join_sp (map (py_str rp) (filter truthy (map snd kvs)))"
| "flatten_field rp v = py_str rp v"

section \<open>Regular-expression substitutions of the normalizer\<close>

text \<open>
  \<^verbatim>\<open>re.sub(pattern, repl, text)\<close> scans \<open>text\<close> from left to right. At each position it
  tries the pattern; a match is replaced and the scan goes on behind it, otherwise the
  character is copied. None of the six patterns of \<^verbatim>\<open>normalize_legal_terms\<close> matches the
  empty string. A pattern is modelled by a function that is given the character before
  the position (\<open>None\<close> at the start of the text, needed for \<^verbatim>\<open>\b\<close>) and the text from the
  position on, and returns the replacement and the rest of the text behind the match.
\<close>

type_synonym matcher = "char option \<Rightarrow> string \<Rightarrow> (string \<times> string) option"

text \<open>
  \<^verbatim>\<open>\b\<close> holds between two positions when exactly one side is a word character; the
  start and the end of the text count as non-word.
\<close>

definition word_before :: "char option \<Rightarrow> bool" where
  "word_before prev = (case prev of None \<Rightarrow> False | Some c \<Rightarrow> is_word c)"

definition word_after :: "string \<Rightarrow> bool" where
  "word_after s = (case s of [] \<Rightarrow> False | c # _ \<Rightarrow> is_word c)"

definition boundary :: "char option \<Rightarrow> string \<Rightarrow> bool" where
  "boundary prev s = (word_before prev \<noteq> word_after s)"

text \<open>One character of \<^verbatim>\<open>[A-Z]\<close>, and the literal \<^verbatim>\<open>\.\<close>.\<close>

definition take_upper :: "string \<Rightarrow> (char \<times> string) option" where
  "take_upper s = (case s of [] \<Rightarrow> None | c # cs \<Rightarrow> if is_upper c then Some (c, cs) else None)"

definition take_dot :: "string \<Rightarrow> string option" where
  "take_dot s = (case s of [] \<Rightarrow> None | c # cs \<Rightarrow> if c = CHR ''.'' then Some cs else None)"

text \<open>
  A literal under \<^verbatim>\<open>re.IGNORECASE\<close>: the pattern is given in lower case, and a character
  of the text matches when its lower case is the pattern's character. Below 256 only the
  ASCII capitals have an ASCII lower case.
\<close>

definition ascii_lower :: "char \<Rightarrow> char" where
  "ascii_lower c = (if is_upper c then char_of (of_char c + (32::nat)) else c)"

fun lit_ci :: "string \<Rightarrow> string \<Rightarrow> string option" where
  "lit_ci [] s = Some s"
| "lit_ci (p # ps) [] = None"
| "lit_ci (p # ps) (c # cs) = (if ascii_lower c = p then lit_ci ps cs else None)"

text \<open>
  \<^verbatim>\<open>\b([A-Z])\.\s*([A-Z])\.\s*([A-Z])\<close> replaced by \<^verbatim>\<open>\1\2\3\<close>. What follows \<^verbatim>\<open>\s*\<close> is a
  capital, which is no whitespace, so the greedy \<^verbatim>\<open>\s*\<close> takes all the whitespace there is
  and giving some back never helps.
\<close>

definition match_abbrev3 :: matcher where
  "match_abbrev3 prev s =
     (if \<not> boundary prev s then None else
      (case take_upper s of None \<Rightarrow> None | Some (a, s1) \<Rightarrow>
      (case take_dot s1 of None \<Rightarrow> None | Some s2 \<Rightarrow>
      (case take_upper (dropWhile is_space s2) of None \<Rightarrow> None | Some (b, s3) \<Rightarrow>
      (case take_dot s3 of None \<Rightarrow> None | Some s4 \<Rightarrow>
      (case take_upper (dropWhile is_space s4) of None \<Rightarrow> None | Some (c, s5) \<Rightarrow>
       Some ([a, b, c], s5)))))))"

text \<open>\<^verbatim>\<open>\b([A-Z])\.\s*([A-Z])\<close> replaced by \<^verbatim>\<open>\1\2\<close>.\<close>

definition match_abbrev2 :: matcher where
  "match_abbrev2 prev s =
     (if \<not> boundary prev s then None else
      (case take_upper s of None \<Rightarrow> None | Some (a, s1) \<Rightarrow>
      (case take_dot s1 of None \<Rightarrow> None | Some s2 \<Rightarrow>
      (case take_upper (dropWhile is_space s2) of None \<Rightarrow> None | Some (b, s3) \<Rightarrow>
       Some ([a, b], s3)))))"

text \<open>
  \<^verbatim>\<open>\bSection\s+(\d+[A-Z]?)\b\<close> with \<^verbatim>\<open>re.IGNORECASE\<close>, replaced by \<^verbatim>\<open>\1\<close>. Under
  \<^verbatim>\<open>IGNORECASE\<close> the class \<^verbatim>\<open>[A-Z]\<close> accepts both cases. \<^verbatim>\<open>\s+\<close> and \<^verbatim>\<open>\d+\<close> are greedy and
  are followed by a token of another class, so they take all there is. The optional letter
  is tried first; when the final \<^verbatim>\<open>\b\<close> fails behind it, the match is tried without it.
  Giving back digits never helps, since a digit then follows a digit.
\<close>

definition match_section :: matcher where
  "match_section prev s =
     (if \<not> boundary prev s then None else
      (case lit_ci ''section'' s of None \<Rightarrow> None | Some s1 \<Rightarrow>
       let spaces = takeWhile is_space s1; s2 = dropWhile is_space s1 in
       if spaces = [] then None else
       let digits = takeWhile is_digit s2; s3 = dropWhile is_digit s2 in
       if digits = [] then None else
       let with_letter =
             (case s3 of [] \<Rightarrow> None
              | l # s4 \<Rightarrow> if is_letter l \<and> boundary (Some l) s4 then Some (digits @ [l], s4) else None)
       in (case with_letter of Some r \<Rightarrow> Some r
           | None \<Rightarrow> if boundary (Some (last digits)) s3 then Some (digits, s3) else None)))"

text \<open>
  \<^verbatim>\<open>\b<name>\b\<close> with \<^verbatim>\<open>re.IGNORECASE\<close> for a statute name, replaced by its abbreviation.
  \<open>name\<close> is the pattern's text in lower case.
\<close>

definition match_name :: "string \<Rightarrow> string \<Rightarrow> matcher" where
  "match_name name abbrev prev s =
     (if \<not> boundary prev s then None else
      (case lit_ci name s of None \<Rightarrow> None | Some rest \<Rightarrow>
       if boundary (Some (last name)) rest then Some (abbrev, rest) else None))"

text \<open>
  The scan. \<open>prev\<close> is the character of the scanned text before the position. A match
  consumes at least one character; the scan continues behind it.
\<close>

fun re_sub :: "matcher \<Rightarrow> char option \<Rightarrow> string \<Rightarrow> string" where
  "re_sub m prev [] = []"
| "re_sub m prev (c # cs) =
     (case m prev (c # cs) of
        None \<Rightarrow> c # re_sub m (Some c) cs
      | Some (repl, rest) \<Rightarrow>
          let n = length (c # cs) - length rest
          in repl @ re_sub m (Some ((c # cs) ! (n - 1))) (drop (n - 1) cs))"

section \<open>The finder object\<close>

text \<open>
  The exceptions that the modelled code can meet. \<open>BackendError\<close> stands for whatever the
  embedding model raises (out of memory included).
\<close>

datatype exn = ValueError string | IndexError | AttributeError | BackendError string

text \<open>
  The fields of \<^verbatim>\<open>SimilarityCaseFinder\<close> that the methods read or write. A vector is a value
  of the type \<open>'v\<close>; the embedding matrix is the list of its rows, \<open>None\<close> while there is
  none. \<open>model\<close> is \<^verbatim>\<open>self.model.encode\<close>: it maps a list of texts to one (unit) vector for
  each, or raises.
\<close>

record 'v finder =
  cases :: "json list"
  embeddings :: "'v list option"
  device :: string
  model :: "string list \<Rightarrow> exn + 'v list"



section \<open>The normalizer and the composer\<close>

text \<open>\<^verbatim>\<open>normalize_legal_terms(self, text)\<close>: the six substitutions in the source's order.\<close>

definition normalize_legal_terms :: "'v finder \<Rightarrow> string \<Rightarrow> string" where
  "normalize_legal_terms self text =
     (if text = [] then [] else
      let text = re_sub match_abbrev3 None text;
          text = re_sub match_abbrev2 None text;
          text = re_sub match_section None text;
          text = re_sub (match_name ''indian penal code'' ''IPC'') None text;
          text = re_sub (match_name ''code of criminal procedure'' ''CrPC'') None text;
          text = re_sub (match_name ''income tax act'' ''IT Act'') None text
      in text)"

text \<open>
  The block that \<^verbatim>\<open>prepare_text_for_embedding\<close> repeats for each weighted field:
  \<^verbatim>\<open>normalized = self.normalize_legal_terms(flatten_field(v)[:cap])\<close>, and if
  \<^verbatim>\<open>normalized.strip()\<close> is not empty, \<open>weight\<close> copies of it are added to \<^verbatim>\<open>parts\<close>.
\<close>

definition field_chunks :: "(json \<Rightarrow> string) \<Rightarrow> 'v finder \<Rightarrow> json \<Rightarrow> nat \<Rightarrow> nat \<Rightarrow> string list" where
  "field_chunks rp self v cap weight =
     (let normalized = normalize_legal_terms self (take cap (flatten_field rp v))
      in if strip normalized \<noteq> [] then replicate weight normalized else [])"

text \<open>
  The list \<^verbatim>\<open>parts\<close> at the end of \<^verbatim>\<open>prepare_text_for_embedding\<close>, for the dict \<open>kvs\<close>: the
  nine weighted fields and the three metadata tags, with the source's conditions. A
  value differs from \<^verbatim>\<open>'Unknown'\<close> unless it is that string.
\<close>

definition compose_parts :: "(json \<Rightarrow> string) \<Rightarrow> 'v finder \<Rightarrow> (string \<times> json) list \<Rightarrow> string list" where
  "compose_parts rp self kvs =
     (let legal_issues = py_or (dict_get kvs ''legal_issues'' (JStr [])) (dict_get kvs ''legalissues'' (JStr []));
          primary_issue = py_or (dict_get kvs ''primary_legal_issue'' (JStr [])) (dict_get kvs ''primarylegalissue'' (JStr []));
          summary = dict_get kvs ''summary'' (JStr []);
          legal_points = py_or (dict_get kvs ''key_legal_points'' (JStr [])) (dict_get kvs ''keylegalpoints'' (JStr []));
          facts = dict_get kvs ''facts'' (JStr []);
          reasoning = py_or (dict_get kvs ''judgment_reasoning'' (JStr [])) (dict_get kvs ''judgmentreasoning'' (JStr []));
          acts = dict_get kvs ''acts_referred'' (JStr []);
          arguments = dict_get kvs ''arguments'' (JStr []);
          precedents = dict_get kvs ''precedents_cited'' (JStr []);
          case_type = dict_get kvs ''case_type'' (JStr []);
          outcome = dict_get kvs ''predicted_outcome'' (JStr []);
          court = dict_get kvs ''court'' (JStr [])
      in (if truthy legal_issues then field_chunks rp self legal_issues 800 4 else [])
       @ (if truthy primary_issue \<and> primary_issue \<noteq> JStr ''Unknown'' \<and> primary_issue \<noteq> JStr ''Unknown legal issue''
          then field_chunks rp self primary_issue 400 4 else [])
       @ (if truthy summary \<and> summary \<noteq> JStr ''Unknown'' then field_chunks rp self summary 1000 3 else [])
       @ (if truthy legal_points then field_chunks rp self legal_points 800 3 else [])
       @ (if truthy facts \<and> facts \<noteq> JStr ''Unknown'' then field_chunks rp self facts 600 2 else [])
       @ (if truthy reasoning \<and> reasoning \<noteq> JStr ''Unknown'' then field_chunks rp self reasoning 600 2 else [])
       @ (if truthy acts then field_chunks rp self acts 400 2 else [])
       @ (if truthy arguments \<and> arguments \<noteq> JStr ''Unknown'' then field_chunks rp self arguments 500 1 else [])
       @ (if truthy precedents then field_chunks rp self precedents 400 1 else [])
       @ (if truthy case_type \<and> case_type \<noteq> JStr ''Unknown'' then [''Type: '' @ py_str rp case_type] else [])
       @ (if truthy outcome then [''Outcome: '' @ py_str rp outcome] else [])
       @ (if truthy court then [''Court: '' @ py_str rp court] else []))"

text \<open>
  \<^verbatim>\<open>prepare_text_for_embedding(self, case)\<close>. An empty dict is false, so it takes the first
  return, as everything that is not a dict does.
\<close>

definition prepare_text_for_embedding :: "(json \<Rightarrow> string) \<Rightarrow> 'v finder \<Rightarrow> json \<Rightarrow> string" where
  "prepare_text_for_embedding rp self c =
     (case c of
        JDict kvs \<Rightarrow>
          if kvs = [] then ''Empty case'' else
          let parts = compose_parts rp self kvs;
              combined = join_sp parts;
              combined = (if length combined > 10000 then take 10000 combined else combined)
          in if combined = [] \<or> strip combined = []
             then ''Case '' @ py_str rp (dict_get kvs ''case_id'' (JStr ''unknown'')) @ '' - No extractable text''
             else combined
      | _ \<Rightarrow> ''Empty case'')"

section \<open>The embedding cache\<close>







section \<open>Ranking\<close>

text \<open>
  Python's \<^verbatim>\<open>==\<close> on JSON values: numbers (bools included) are compared by value, lists
  element by element, dicts as sets of bindings, and values of different kinds differ.
\<close>

fun py_num :: "json \<Rightarrow> rat option" where
  "py_num (JBool b) = Some (if b then 1 else 0)"
| "py_num (JInt i) = Some (of_int i)"
| "py_num (JFloat r) = Some r"
| "py_num v = None"

function py_eq :: "json \<Rightarrow> json \<Rightarrow> bool" where
  "py_eq (JList xs) w = (case w of JList ys \<Rightarrow> length xs = length ys \<and> list_all (\<lambda>(x, y). py_eq x y) (zip xs ys) | _ \<Rightarrow> False)"
| "py_eq (JDict a) w = (case w of JDict b \<Rightarrow> length a = length b \<and>
       list_all (\<lambda>(k, x). case map_of b k of None \<Rightarrow> False | Some y \<Rightarrow> py_eq x y) a | _ \<Rightarrow> False)"
| "py_eq JNull w = (w = JNull)"
| "py_eq (JStr s) w = (w = JStr s)"
| "py_eq (JBool b) w = (py_num w = py_num (JBool b))"
| "py_eq (JInt i) w = (py_num w = py_num (JInt i))"
| "py_eq (JFloat r) w = (py_num w = py_num (JFloat r))"
  by pat_completeness auto
termination
proof (relation "measure (\<lambda>(v, w). size v)", goal_cases)
  case 1
  show ?case by simp
next
  case (2 xs w ys p x y)
  then have "x \<in> set xs" by (auto dest: set_zip_leftD)
  then show ?case by (simp add: size_list_estimation' less_Suc_eq_le)
next
  case (3 a w b p k x y)
  then have "(k, x) \<in> set a" by simp
  then have "size x < Suc (size_list (size_prod (\<lambda>_. 0) size) a)"
    by (induction a) auto
  then show ?case by simp
qed

text \<open>
  \<^verbatim>\<open>numpy.argsort(a)\<close> returns the indices of \<open>a\<close> in an order that sorts \<open>a\<close> ascending.
  Its default sort is not stable, so where equal elements end up is not determined by \<open>a\<close>.
  The function is a parameter \<open>argsort\<close> of the ranking; \<open>is_argsort a p\<close> says what numpy
  promises of its answer \<open>p\<close>: it is a permutation of the indices of \<open>a\<close>, and \<open>a\<close> read along
  it is ascending.
\<close>

definition is_argsort :: "('s::linorder) list \<Rightarrow> nat list \<Rightarrow> bool" where
  "is_argsort a p = (sort p = [0..<length a] \<and> sorted (map (\<lambda>i. a ! i) p))"

text \<open>The slice \<^verbatim>\<open>xs[:k]\<close>: a negative \<open>k\<close> counts from the end.\<close>

definition slice_to :: "int \<Rightarrow> 'a list \<Rightarrow> 'a list" where
  "slice_to k xs = (if 0 \<le> k then take (nat k) xs else take (length xs - nat (- k)) xs)"

text \<open>
  The comprehension that drops the query's own case:
  \<^verbatim>\<open>[idx for idx in top_indices if self.cases[idx].get('case_id') != query_id]\<close>. An index
  beyond the case list raises \<^verbatim>\<open>IndexError\<close>, and a case that is no dict has no \<^verbatim>\<open>get\<close>.
\<close>

fun exclude_id :: "json list \<Rightarrow> json \<Rightarrow> nat list \<Rightarrow> exn + nat list" where
  "exclude_id cs query_id [] = Inr []"
| "exclude_id cs query_id (idx # rest) =
     (if length cs \<le> idx then Inl IndexError else
      (case cs ! idx of
         JDict kvs \<Rightarrow>
           (case exclude_id cs query_id rest of
              Inl e \<Rightarrow> Inl e
            | Inr kept \<Rightarrow> Inr (if \<not> py_eq (dict_get kvs ''case_id'' JNull) query_id then idx # kept else kept))
       | _ \<Rightarrow> Inl AttributeError))"

text \<open>
  The comprehension \<^verbatim>\<open>[(self.cases[idx], float(similarities[idx])) for idx in top_indices]\<close>.
  An index beyond the case list or beyond \<^verbatim>\<open>similarities\<close> raises \<^verbatim>\<open>IndexError\<close>.
\<close>

fun collect_results :: "json list \<Rightarrow> 's list \<Rightarrow> nat list \<Rightarrow> exn + (json \<times> 's) list" where
  "collect_results cs similarities [] = Inr []"
| "collect_results cs similarities (idx # rest) =
     (if length cs \<le> idx \<or> length similarities \<le> idx then Inl IndexError else
      (case collect_results cs similarities rest of
         Inl e \<Rightarrow> Inl e
       | Inr rs \<Rightarrow> Inr ((cs ! idx, similarities ! idx) # rs)))"

text \<open>
  The body of the \<^verbatim>\<open>try\<close> of \<^verbatim>\<open>find_similar\<close>, once the embeddings are known to exist.
  \<open>cosine\<close> is the cosine similarity of two vectors (\<^verbatim>\<open>sklearn\<close>'s \<^verbatim>\<open>cosine_similarity\<close> gives
  the row of the similarities of the query to each row of the matrix), and \<open>argsort\<close> is
  \<^verbatim>\<open>numpy.argsort\<close>.
  The query is encoded as a list of one text; the first row of the answer is the query's
  vector, and an answer without rows makes the call fail.
\<close>

definition find_similar_body :: "(json \<Rightarrow> string) \<Rightarrow> ('v \<Rightarrow> 'v \<Rightarrow> 's::linorder) \<Rightarrow>
    ('s list \<Rightarrow> nat list) \<Rightarrow> 'v finder \<Rightarrow> 'v list \<Rightarrow>
    json \<Rightarrow> int \<Rightarrow> bool \<Rightarrow> exn + (json \<times> 's) list" where
  "find_similar_body rp cosine argsort self matrix query_case topk exclude_self =
     (let query_text = prepare_text_for_embedding rp self query_case
      in (case model self [query_text] of
            Inl e \<Rightarrow> Inl e
          | Inr [] \<Rightarrow> Inl IndexError
          | Inr (query_embedding # _) \<Rightarrow>
              (let similarities = map (cosine query_embedding) matrix;
                   top_indices = rev (argsort similarities);
                   filtered =
                     (if exclude_self then
                        (case query_case of
                           JDict q \<Rightarrow> exclude_id (cases self) (dict_get q ''case_id'' JNull) top_indices
                         | _ \<Rightarrow> Inl AttributeError)
                      else Inr top_indices)
               in (case filtered of
                     Inl e \<Rightarrow> Inl e
                   | Inr top_indices \<Rightarrow>
                       collect_results (cases self) similarities (slice_to topk top_indices)))))"

text \<open>
  \<^verbatim>\<open>find_similar(self, query_case, topk, exclude_self)\<close>: without embeddings it returns the
  empty list, and every exception of the body is caught and the empty list returned. No
  branch assigns to the object. The result is the list returned and the object afterwards.
\<close>

definition find_similar :: "(json \<Rightarrow> string) \<Rightarrow> ('v \<Rightarrow> 'v \<Rightarrow> 's::linorder) \<Rightarrow>
    ('s list \<Rightarrow> nat list) \<Rightarrow> 'v finder \<Rightarrow>
    json \<Rightarrow> int \<Rightarrow> bool \<Rightarrow> (json \<times> 's) list \<times> 'v finder" where
  "find_similar rp cosine argsort self query_case topk exclude_self =
     (case embeddings self of
        None \<Rightarrow> ([], self)
      | Some matrix \<Rightarrow>
          (case find_similar_body rp cosine argsort self matrix query_case topk exclude_self of
             Inl e \<Rightarrow> ([], self)
           | Inr results \<Rightarrow> (results, self)))"

text \<open>
  \<^verbatim>\<open>find_similar_by_text(self, query_text, topk)\<close>: the two checks in the source's order,
  then the normalized query is encoded and ranked. Every exception is raised again.
\<close>

definition find_similar_by_text :: "('v \<Rightarrow> 'v \<Rightarrow> 's::linorder) \<Rightarrow> ('s list \<Rightarrow> nat list) \<Rightarrow>
    'v finder \<Rightarrow> string \<Rightarrow> int \<Rightarrow>
    (exn + (json \<times> 's) list) \<times> 'v finder" where
  "find_similar_by_text cosine argsort self query_text topk =
     (case embeddings self of
        None \<Rightarrow> (Inl (ValueError ''No embeddings available. Please compute embeddings first.''), self)
      | Some matrix \<Rightarrow>
          if query_text = [] \<or> strip query_text = []
          then (Inl (ValueError ''Query text cannot be empty''), self)
          else
            let normalized_query = normalize_legal_terms self query_text
            in (case model self [normalized_query] of
                  Inl e \<Rightarrow> (Inl e, self)
                | Inr [] \<Rightarrow> (Inl IndexError, self)
                | Inr (query_embedding # _) \<Rightarrow>
                    (let similarities = map (cosine query_embedding) matrix;
                         top_indices = slice_to topk (rev (argsort similarities))
                     in (collect_results (cases self) similarities top_indices, self))))"

section \<open>Texts without a match\<close>

text \<open>
  \<open>matches_nowhere m prev s\<close>: the scan of \<^verbatim>\<open>re.sub\<close> finds no match of the pattern \<open>m\<close> at
  any position of \<open>s\<close>. A text is \<open>match_free\<close> when this holds for each of the six patterns
  of the normalizer.
\<close>

fun matches_nowhere :: "matcher \<Rightarrow> char option \<Rightarrow> string \<Rightarrow> bool" where
  "matches_nowhere m prev [] = True"
| "matches_nowhere m prev (c # cs) = (m prev (c # cs) = None \<and> matches_nowhere m (Some c) cs)"

definition match_free :: "string \<Rightarrow> bool" where
  "match_free text =
     (matches_nowhere match_abbrev3 None text \<and>
      matches_nowhere match_abbrev2 None text \<and>
      matches_nowhere match_section None text \<and>
      matches_nowhere (match_name ''indian penal code'' ''IPC'') None text \<and>
      matches_nowhere (match_name ''code of criminal procedure'' ''CrPC'') None text \<and>
      matches_nowhere (match_name ''income tax act'' ''IT Act'') None text)"

section \<open>A small corpus\<close>

text \<open>
  Two cases with the same summary and a third one, a finder whose matrix gives the first
  two cases the same vector, and the parameters of the model at their simplest: vectors
  are numbers, the encoder gives every text the vector \<open>3\<close>, and the similarity of a row
  to the query is the row itself.
\<close>

definition ex_case_A :: json where
  "ex_case_A = JDict [(''case_id'', JStr ''A''), (''summary'', JStr ''murder case IPC 302'')]"

definition ex_case_B :: json where
  "ex_case_B = JDict [(''case_id'', JStr ''B''), (''summary'', JStr ''murder case IPC 302'')]"

definition ex_case_C :: json where
  "ex_case_C = JDict [(''case_id'', JStr ''C''), (''summary'', JStr ''unrelated tax dispute'')]"

definition ex_repr :: "json \<Rightarrow> string" where
  "ex_repr v = []"

definition ex_model :: "string list \<Rightarrow> exn + nat list" where
  "ex_model texts = Inr (map (\<lambda>t. 3) texts)"

definition ex_cosine :: "nat \<Rightarrow> nat \<Rightarrow> nat" where
  "ex_cosine q v = v"

text \<open>
  The \<^verbatim>\<open>argsort\<close> of the examples sorts the indices by insertion. On an array of two equal
  numbers it answers \<open>[0, 1]\<close>.
\<close>

definition ex_argsort :: "nat list \<Rightarrow> nat list" where
  "ex_argsort a = sort_key (\<lambda>i. a ! i) [0..<length a]"


definition ex_finder :: "nat finder" where
  "ex_finder = \<lparr>cases = [ex_case_A, ex_case_B, ex_case_C], embeddings = Some [3, 3, 1],
                 device = ''cpu'', model = ex_model\<rparr>"

definition ex_finder_empty :: "nat finder" where
  "ex_finder_empty = \<lparr>cases = [ex_case_A, ex_case_B, ex_case_C], embeddings = None,
                       device = ''cpu'', model = ex_model\<rparr>"

text \<open>A finder whose three scores differ, and one of two cases with the same score.\<close>

definition ex_finder_ranked :: "nat finder" where
  "ex_finder_ranked = \<lparr>cases = [ex_case_A, ex_case_B, ex_case_C], embeddings = Some [2, 3, 1],
                        device = ''cpu'', model = ex_model\<rparr>"

definition ex_finder_tie :: "nat finder" where
  "ex_finder_tie = \<lparr>cases = [ex_case_A, ex_case_B], embeddings = Some [3, 3],
                     device = ''cpu'', model = ex_model\<rparr>"


section \<open>Properties\<close>

text \<open>
  C10. \<open>flatten_field\<close> is a total function into strings on every nesting of \<^verbatim>\<open>None\<close>,
  strings, lists and dicts (it has no raising branch). \<^verbatim>\<open>None\<close> and the empty string give the
  empty string, a string gives itself, a list gives the flattened elements that are neither
  empty nor blank joined by single spaces, a dict gives the \<^verbatim>\<open>str\<close> of its true values joined
  by single spaces, and a bool, an int or a float gives its \<^verbatim>\<open>str\<close>.
\<close>

theorem flatten_field_total:
  "flatten_field rp JNull = [] \<and>
   flatten_field rp (JStr []) = [] \<and>
   flatten_field rp (JStr s) = s \<and>
   flatten_field rp (JList xs) =
     join_sp (filter (\<lambda>t. strip t \<noteq> []) (map (flatten_field rp) xs)) \<and>
   flatten_field rp (JDict kvs) = join_sp (map (py_str rp) (filter truthy (map snd kvs))) \<and>
   flatten_field rp (JBool b) = py_str rp (JBool b) \<and>
   flatten_field rp (JInt i) = py_str rp (JInt i) \<and>
   flatten_field rp (JFloat r) = py_str rp (JFloat r)"
proof -
  have blank: "\<And>t. (t \<noteq> [] \<and> strip t \<noteq> []) = (strip t \<noteq> [])"
    by (auto simp: strip_def)
  show ?thesis by (simp add: blank)
qed

subsection \<open>The embedding cache\<close>



subsection \<open>Rejected queries\<close>

lemma strip_Nil: "strip [] = []"
  by (simp add: strip_def)

text \<open>
  C4 (as the code has it). With an embedding matrix present, an empty or blank query text
  makes \<^verbatim>\<open>find_similar_by_text\<close> raise \<^verbatim>\<open>ValueError("Query text cannot be empty")\<close>; with none,
  the check of the embeddings comes first and its \<^verbatim>\<open>ValueError\<close> is raised. The object is
  unchanged in both cases.
\<close>

theorem blank_query_rejected:
  "(embeddings self \<noteq> None \<and> strip q = [] \<longrightarrow>
      find_similar_by_text cosine argsort self q k = (Inl (ValueError ''Query text cannot be empty''), self)) \<and>
   (embeddings self = None \<longrightarrow>
      find_similar_by_text cosine argsort self q k =
        (Inl (ValueError ''No embeddings available. Please compute embeddings first.''), self))"
  by (auto simp: find_similar_by_text_def strip_Nil)

theorem blank_query_rejected_witness:
  "embeddings ex_finder \<noteq> None \<and> strip ''  '' = [] \<and>
   find_similar_by_text ex_cosine ex_argsort ex_finder ''  '' 5 = (Inl (ValueError ''Query text cannot be empty''), ex_finder) \<and>
   embeddings ex_finder_empty = None \<and>
   find_similar_by_text ex_cosine ex_argsort ex_finder_empty ''  '' 5 =
     (Inl (ValueError ''No embeddings available. Please compute embeddings first.''), ex_finder_empty)"
proof -
  have a: "embeddings ex_finder \<noteq> None" by (simp add: ex_finder_def)
  have b: "strip ''  '' = []" by (simp add: strip_def is_space_def)
  have c: "embeddings ex_finder_empty = None" by (simp add: ex_finder_empty_def)
  from blank_query_rejected [of ex_finder "''  ''" ex_cosine ex_argsort 5] a b
  have d: "find_similar_by_text ex_cosine ex_argsort ex_finder ''  '' 5 = (Inl (ValueError ''Query text cannot be empty''), ex_finder)"
    by blast
  from blank_query_rejected [of ex_finder_empty "''  ''" ex_cosine ex_argsort 5] c
  have e: "find_similar_by_text ex_cosine ex_argsort ex_finder_empty ''  '' 5 =
     (Inl (ValueError ''No embeddings available. Please compute embeddings first.''), ex_finder_empty)"
    by blast
  from a b c d e show ?thesis by blast
qed

text \<open>
  C4 as stated fails: the empty query to a finder without embeddings does not raise the
  error of the empty query.
\<close>

theorem blank_query_counterexample:
  "strip [] = [] \<and>
   fst (find_similar_by_text ex_cosine ex_argsort ex_finder_empty [] 5) \<noteq> Inl (ValueError ''Query text cannot be empty'')"
  by (simp add: find_similar_by_text_def ex_finder_empty_def strip_def)

text \<open>
  C5 (as the code has it). Without an embedding matrix \<^verbatim>\<open>find_similar\<close> returns the empty
  list and raises nothing, \<^verbatim>\<open>find_similar_by_text\<close> raises its \<^verbatim>\<open>ValueError\<close>, and neither
  changes the object: nothing is recomputed.
\<close>

theorem no_embeddings_behaviour:
  "embeddings self = None \<Longrightarrow>
     find_similar rp cosine argsort self query_case k ex = ([], self) \<and>
     find_similar_by_text cosine argsort self q k =
       (Inl (ValueError ''No embeddings available. Please compute embeddings first.''), self)"
  by (simp add: find_similar_def find_similar_by_text_def)

theorem no_embeddings_behaviour_witness:
  "embeddings ex_finder_empty = None \<and>
   find_similar ex_repr ex_cosine ex_argsort ex_finder_empty ex_case_A 5 True = ([], ex_finder_empty) \<and>
   find_similar_by_text ex_cosine ex_argsort ex_finder_empty ''murder'' 5 =
       (Inl (ValueError ''No embeddings available. Please compute embeddings first.''), ex_finder_empty)"
proof -
  have a: "embeddings ex_finder_empty = None" by (simp add: ex_finder_empty_def)
  from no_embeddings_behaviour [OF a, of ex_repr ex_cosine ex_argsort ex_case_A 5 True "''murder''"] a
  show ?thesis by simp
qed

text \<open>
  C5 as stated fails: \<^verbatim>\<open>find_similar\<close> on a finder without embeddings returns normally, with
  the empty list.
\<close>

theorem no_embeddings_counterexample:
  "embeddings ex_finder_empty = None \<and>
   find_similar ex_repr ex_cosine ex_argsort ex_finder_empty ex_case_A 5 True = ([], ex_finder_empty)"
  by (simp add: find_similar_def ex_finder_empty_def)

subsection \<open>The composer\<close>

lemma compose_parts_self: "compose_parts rp self1 kvs = compose_parts rp self2 kvs"
  by (simp only: compose_parts_def field_chunks_def normalize_legal_terms_def)

text \<open>
  C6. The composite text is a function of the case alone: whatever the state of the
  finder object (its cases, embeddings, device and model), the same case gives the same
  string.
\<close>

theorem composer_deterministic:
  "prepare_text_for_embedding rp self1 c = prepare_text_for_embedding rp self2 c"
  by (cases c) (simp_all add: prepare_text_for_embedding_def compose_parts_self [of rp self1 _ self2])

text \<open>
  C8, at the failing input. A case whose type, outcome and court are all \<^verbatim>\<open>"Unknown"\<close> gets
  no type tag, but it does get the outcome tag and the court tag: the test against
  \<^verbatim>\<open>'Unknown'\<close> that guards the type is missing for the other two.
\<close>

theorem unknown_outcome_tagged:
  "prepare_text_for_embedding ex_repr ex_finder
     (JDict [(''case_id'', JStr ''A''), (''case_type'', JStr ''Unknown''),
             (''predicted_outcome'', JStr ''Unknown''), (''court'', JStr ''Unknown'')])
   = ''Outcome: Unknown Court: Unknown''"
  by code_simp

subsection \<open>Ranking\<close>

lemma collect_results_map:
  "collect_results cs sims idxs = Inr rs \<Longrightarrow> rs = map (\<lambda>i. (cs ! i, sims ! i)) idxs"
  by (induction idxs arbitrary: rs) (auto split: if_splits sum.splits)

lemma set_slice_to: "set (slice_to k xs) \<subseteq> set xs"
  by (auto simp: slice_to_def dest: in_set_takeD)

lemma sorted_wrt_slice_to: "sorted_wrt P xs \<Longrightarrow> sorted_wrt P (slice_to k xs)"
  by (simp add: slice_to_def sorted_wrt_take)

lemma exclude_id_kept:
  "exclude_id cs qid idxs = Inr kept \<Longrightarrow> i \<in> set kept \<Longrightarrow>
   \<exists>kvs. cs ! i = JDict kvs \<and> \<not> py_eq (dict_get kvs ''case_id'' JNull) qid"
proof (induction idxs arbitrary: kept)
  case Nil
  then show ?case by simp
next
  case (Cons idx rest)
  from Cons.prems(1) obtain kvs kept' where
    c: "cs ! idx = JDict kvs" and r: "exclude_id cs qid rest = Inr kept'"
    and k: "kept = (if \<not> py_eq (dict_get kvs ''case_id'' JNull) qid then idx # kept' else kept')"
    by (auto split: if_splits json.splits sum.splits)
  show ?case
  proof (cases "i \<in> set kept'")
    case True
    from Cons.IH [OF r True] show ?thesis .
  next
    case False
    with k Cons.prems(2) have "i = idx" "\<not> py_eq (dict_get kvs ''case_id'' JNull) qid"
      by (auto split: if_splits)
    with c show ?thesis by simp
  qed
qed

lemma find_similar_body_excl:
  assumes "find_similar_body rp cosine argsort self matrix (JDict q) k True = Inr rs"
  shows "\<exists>qe kept. exclude_id (cases self) (dict_get q ''case_id'' JNull)
             (rev (argsort (map (cosine qe) matrix))) = Inr kept \<and>
          collect_results (cases self) (map (cosine qe) matrix) (slice_to k kept) = Inr rs"
proof (cases "model self [prepare_text_for_embedding rp self (JDict q)]")
  case (Inl e)
  with assms show ?thesis by (simp add: find_similar_body_def)
next
  case (Inr vs)
  show ?thesis
  proof (cases vs)
    case Nil
    with Inr assms show ?thesis by (simp add: find_similar_body_def)
  next
    case (Cons qe more)
    show ?thesis
    proof (cases "exclude_id (cases self) (dict_get q ''case_id'' JNull)
             (rev (argsort (map (cosine qe) matrix)))")
      case (Inl e)
      with Inr Cons assms show ?thesis by (simp add: find_similar_body_def)
    next
      case kept: (Inr kept)
      with Inr Cons assms
      have "collect_results (cases self) (map (cosine qe) matrix) (slice_to k kept) = Inr rs"
        by (simp add: find_similar_body_def)
      with kept show ?thesis by blast
    qed
  qed
qed

lemma find_similar_results:
  assumes "(c, s) \<in> set (fst (find_similar rp cosine argsort self qc k ex))"
  shows "\<exists>matrix rs. embeddings self = Some matrix \<and>
           find_similar_body rp cosine argsort self matrix qc k ex = Inr rs \<and> (c, s) \<in> set rs"
proof (cases "embeddings self")
  case None
  with assms show ?thesis by (simp add: find_similar_def)
next
  case (Some matrix)
  show ?thesis
  proof (cases "find_similar_body rp cosine argsort self matrix qc k ex")
    case (Inl e)
    with Some assms show ?thesis by (simp add: find_similar_def)
  next
    case (Inr rs)
    with Some assms have "(c, s) \<in> set rs" by (simp add: find_similar_def)
    with Some Inr show ?thesis by blast
  qed
qed


text \<open>
  C3. \<^verbatim>\<open>find_similar\<close> with \<^verbatim>\<open>exclude_self=True\<close>, applied to a case record, returns no case
  whose \<^verbatim>\<open>case_id\<close> is equal (Python's \<^verbatim>\<open>==\<close>) to the \<^verbatim>\<open>case_id\<close> of the query, whatever the
  similarity scores are: every returned case is a dict with a different identifier.
\<close>

theorem self_excluded:
  assumes "(c, s) \<in> set (fst (find_similar rp cosine argsort self (JDict q) k True))"
  shows "\<exists>kvs. c = JDict kvs \<and> \<not> py_eq (dict_get kvs ''case_id'' JNull) (dict_get q ''case_id'' JNull)"
proof -
  from find_similar_results [OF assms] obtain matrix rs where
    body: "find_similar_body rp cosine argsort self matrix (JDict q) k True = Inr rs"
    and mem: "(c, s) \<in> set rs"
    by blast
  from find_similar_body_excl [OF body] obtain qe kept where
    kept: "exclude_id (cases self) (dict_get q ''case_id'' JNull)
             (rev (argsort (map (cosine qe) matrix))) = Inr kept"
    and coll: "collect_results (cases self) (map (cosine qe) matrix) (slice_to k kept) = Inr rs"
    by blast
  from mem have "(c, s) \<in> set (map (\<lambda>i. (cases self ! i, map (cosine qe) matrix ! i)) (slice_to k kept))"
    unfolding collect_results_map [OF coll, symmetric] .
  then have "(c, s) \<in> (\<lambda>i. (cases self ! i, map (cosine qe) matrix ! i)) ` set (slice_to k kept)"
    by (simp only: set_map)
  then obtain i where i: "i \<in> set (slice_to k kept)"
    and cs: "(c, s) = (cases self ! i, map (cosine qe) matrix ! i)"
    by (rule imageE)
  from cs have c: "c = cases self ! i" by (rule Pair_inject)
  have "i \<in> set kept" by (rule subsetD [OF set_slice_to i])
  from exclude_id_kept [OF kept this] obtain kvs where
    "cases self ! i = JDict kvs" "\<not> py_eq (dict_get kvs ''case_id'' JNull) (dict_get q ''case_id'' JNull)"
    by blast
  with c show ?thesis by blast
qed

theorem self_excluded_witness:
  "(ex_case_B, 3) \<in> set (fst (find_similar ex_repr ex_cosine ex_argsort ex_finder ex_case_A 5 True)) \<and>
   (\<exists>kvs. ex_case_B = JDict kvs \<and>
      \<not> py_eq (dict_get kvs ''case_id'' JNull) (JStr ''A''))"
proof -
  have r: "fst (find_similar ex_repr ex_cosine ex_argsort ex_finder ex_case_A 5 True)
     = [(ex_case_B, 3), (ex_case_C, 1)]"
    by code_simp
  have m: "(ex_case_B, 3) \<in> set (fst (find_similar ex_repr ex_cosine ex_argsort ex_finder
      (JDict [(''case_id'', JStr ''A''), (''summary'', JStr ''murder case IPC 302'')]) 5 True))"
    unfolding r [unfolded ex_case_A_def] by simp
  have g: "dict_get [(''case_id'', JStr ''A''), (''summary'', JStr ''murder case IPC 302'')] ''case_id'' JNull = JStr ''A''"
    by (simp add: dict_get_def)
  have e: "\<exists>kvs. ex_case_B = JDict kvs \<and>
      \<not> py_eq (dict_get kvs ''case_id'' JNull) (JStr ''A'')"
    using self_excluded [OF m] unfolding g .
  have m2: "(ex_case_B, 3) \<in> set (fst (find_similar ex_repr ex_cosine ex_argsort ex_finder ex_case_A 5 True))"
    unfolding r by simp
  show ?thesis by (rule conjI [OF m2 e])
qed

subsection \<open>The order of the ranking\<close>

lemma rev_argsort_desc:
  assumes "is_argsort a p"
  shows "sorted_wrt (\<lambda>i j. a ! j \<le> a ! i) (rev p)"
proof -
  from assms have "sorted (map (\<lambda>i. a ! i) p)" by (simp add: is_argsort_def)
  then have "sorted_wrt (\<lambda>i j. a ! i \<le> a ! j) p" by (simp add: sorted_map)
  then show ?thesis by (simp add: sorted_wrt_rev)
qed

lemma ex_argsort_spec: "is_argsort a (ex_argsort a)"
proof -
  let ?p = "sort_key (\<lambda>i. a ! i) [0..<length a]"
  have "sort ?p = [0..<length a]"
    by (rule sorted_distinct_set_unique) simp_all
  moreover have "sorted (map (\<lambda>i. a ! i) ?p)" by (rule sorted_sort_key)
  ultimately show ?thesis by (simp add: is_argsort_def ex_argsort_def)
qed

lemma exclude_id_filter:
  "exclude_id cs qid idxs = Inr kept \<Longrightarrow>
   kept = filter (\<lambda>idx. case cs ! idx of JDict kvs \<Rightarrow> \<not> py_eq (dict_get kvs ''case_id'' JNull) qid | _ \<Rightarrow> False) idxs"
  by (induction idxs arbitrary: kept) (auto split: if_splits json.splits sum.splits)

lemma collect_results_desc:
  assumes "collect_results cs sims idxs = Inr rs"
    and "sorted_wrt (\<lambda>i j. sims ! j \<le> sims ! i) idxs"
  shows "sorted_wrt (\<lambda>a b. snd b \<le> snd a) rs"
proof -
  have "rs = map (\<lambda>i. (cs ! i, sims ! i)) idxs"
    by (rule collect_results_map [OF assms(1)])
  with assms(2) show ?thesis by (simp add: sorted_wrt_map)
qed

lemma find_similar_body_desc:
  assumes srt: "\<And>a. is_argsort a (argsort a)"
    and "find_similar_body rp cosine argsort self matrix qc k ex = Inr rs"
  shows "sorted_wrt (\<lambda>a b. snd b \<le> snd a) rs"
proof (cases "model self [prepare_text_for_embedding rp self qc]")
  case (Inl e)
  with assms(2) show ?thesis by (simp add: find_similar_body_def)
next
  case (Inr vs)
  show ?thesis
  proof (cases vs)
    case Nil
    with Inr assms(2) show ?thesis by (simp add: find_similar_body_def)
  next
    case (Cons qe more)
    let ?sims = "map (cosine qe) matrix"
    let ?top = "rev (argsort ?sims)"
    let ?filtered = "if ex then (case qc of JDict q \<Rightarrow> exclude_id (cases self) (dict_get q ''case_id'' JNull) ?top
                                 | _ \<Rightarrow> Inl AttributeError) else Inr ?top"
    from Inr Cons assms(2) have body: "(case ?filtered of Inl e \<Rightarrow> Inl e
        | Inr top_indices \<Rightarrow> collect_results (cases self) ?sims (slice_to k top_indices)) = Inr rs"
      by (simp add: find_similar_body_def Let_def)
    then obtain kept where f: "?filtered = Inr kept"
      and coll: "collect_results (cases self) ?sims (slice_to k kept) = Inr rs"
      by (cases ?filtered) simp_all
    have "sorted_wrt (\<lambda>i j. ?sims ! j \<le> ?sims ! i) kept"
    proof (cases ex)
      case False
      with f have "kept = ?top" by simp
      then show ?thesis by (simp only: rev_argsort_desc [OF srt])
    next
      case True
      with f obtain q where "exclude_id (cases self) (dict_get q ''case_id'' JNull) ?top = Inr kept"
        by (cases qc) simp_all
      from exclude_id_filter [OF this] obtain P where "kept = filter P ?top" by blast
      then show ?thesis by (simp only: sorted_wrt_filter rev_argsort_desc [OF srt])
    qed
    then have "sorted_wrt (\<lambda>i j. ?sims ! j \<le> ?sims ! i) (slice_to k kept)"
      by (rule sorted_wrt_slice_to)
    with coll show ?thesis by (rule collect_results_desc)
  qed
qed

lemma find_similar_desc:
  assumes srt: "\<And>a. is_argsort a (argsort a)"
  shows "sorted_wrt (\<lambda>a b. snd b \<le> snd a) (fst (find_similar rp cosine argsort self qc k ex))"
proof (cases "embeddings self")
  case None
  then show ?thesis by (simp add: find_similar_def)
next
  case (Some matrix)
  show ?thesis
  proof (cases "find_similar_body rp cosine argsort self matrix qc k ex")
    case (Inl e)
    with Some show ?thesis by (simp add: find_similar_def)
  next
    case (Inr rs)
    from find_similar_body_desc [OF srt Inr] Some Inr show ?thesis by (simp add: find_similar_def)
  qed
qed

lemma find_similar_by_text_desc:
  assumes srt: "\<And>a. is_argsort a (argsort a)"
    and "fst (find_similar_by_text cosine argsort self q k) = Inr rs"
  shows "sorted_wrt (\<lambda>a b. snd b \<le> snd a) rs"
proof (cases "embeddings self")
  case None
  with assms(2) show ?thesis by (simp add: find_similar_by_text_def)
next
  case (Some matrix)
  show ?thesis
  proof (cases "q = [] \<or> strip q = []")
    case True
    with Some assms(2) show ?thesis by (simp add: find_similar_by_text_def)
  next
    case nb: False
    show ?thesis
    proof (cases "model self [normalize_legal_terms self q]")
      case (Inl e)
      with Some nb assms(2) show ?thesis by (simp add: find_similar_by_text_def)
    next
      case (Inr vs)
      show ?thesis
      proof (cases vs)
        case Nil
        with Some nb Inr assms(2) show ?thesis by (simp add: find_similar_by_text_def)
      next
        case (Cons qe more)
        let ?sims = "map (cosine qe) matrix"
        from Some nb Inr Cons assms(2)
        have coll: "collect_results (cases self) ?sims (slice_to k (rev (argsort ?sims))) = Inr rs"
          by (simp add: find_similar_by_text_def Let_def)
        have "sorted_wrt (\<lambda>i j. ?sims ! j \<le> ?sims ! i) (slice_to k (rev (argsort ?sims)))"
          by (rule sorted_wrt_slice_to [OF rev_argsort_desc [OF srt]])
        with coll show ?thesis by (rule collect_results_desc)
      qed
    qed
  qed
qed


text \<open>
  C2 (as the code has it). Whenever \<^verbatim>\<open>argsort\<close> answers as numpy promises, both entry points
  return their cases by non-increasing similarity. Nothing is said of the order among
  equal similarities: it is the reverse of the order in which \<^verbatim>\<open>argsort\<close> lists them.
\<close>

theorem ranking_order:
  assumes "\<And>a. is_argsort a (argsort a)"
  shows "sorted_wrt (\<lambda>a b. snd b \<le> snd a) (fst (find_similar rp cosine argsort self query_case k ex)) \<and>
   (fst (find_similar_by_text cosine argsort self q k) = Inr rs \<longrightarrow> sorted_wrt (\<lambda>a b. snd b \<le> snd a) rs)"
  using find_similar_desc [OF assms] find_similar_by_text_desc [OF assms] by blast

theorem ranking_order_witness:
  "is_argsort [2, 3, 1::nat] (ex_argsort [2, 3, 1]) \<and>
   fst (find_similar_by_text ex_cosine ex_argsort ex_finder_ranked ''murder under section 302'' 5)
     = Inr [(ex_case_B, 3), (ex_case_A, 2), (ex_case_C, 1)] \<and>
   sorted_wrt (\<lambda>a b. snd b \<le> snd a) [(ex_case_B, 3::nat), (ex_case_A, 2), (ex_case_C, 1)] \<and>
   sorted_wrt (\<lambda>a b. snd b \<le> snd a)
     (fst (find_similar ex_repr ex_cosine ex_argsort ex_finder_ranked ex_case_C 5 True))"
proof -
  have s: "is_argsort [2, 3, 1::nat] (ex_argsort [2, 3, 1])" by (rule ex_argsort_spec)
  have r: "fst (find_similar_by_text ex_cosine ex_argsort ex_finder_ranked ''murder under section 302'' 5)
     = Inr [(ex_case_B, 3), (ex_case_A, 2), (ex_case_C, 1)]"
    by code_simp
  have t: "sorted_wrt (\<lambda>a b. snd b \<le> snd a)
      (fst (find_similar ex_repr ex_cosine ex_argsort ex_finder_ranked ex_case_C 5 True)) \<and>
    (fst (find_similar_by_text ex_cosine ex_argsort ex_finder_ranked ''murder under section 302'' 5)
       = Inr [(ex_case_B, 3), (ex_case_A, 2), (ex_case_C, 1)] \<longrightarrow>
     sorted_wrt (\<lambda>a b. snd b \<le> snd a) [(ex_case_B, 3::nat), (ex_case_A, 2), (ex_case_C, 1)])"
    by (rule ranking_order) (rule ex_argsort_spec)
  from t r have a: "sorted_wrt (\<lambda>a b. snd b \<le> snd a) [(ex_case_B, 3::nat), (ex_case_A, 2), (ex_case_C, 1)]"
    by blast
  from t have b: "sorted_wrt (\<lambda>a b. snd b \<le> snd a)
      (fst (find_similar ex_repr ex_cosine ex_argsort ex_finder_ranked ex_case_C 5 True))"
    by blast
  show ?thesis by (rule conjI [OF s conjI [OF r conjI [OF a b]]])
qed

text \<open>
  C2 as stated fails: the two cases \<open>A\<close> and \<open>B\<close> (indices 0 and 1) have the same similarity
  to the query, \<^verbatim>\<open>argsort\<close> lists them as \<open>[0, 1]\<close>, and the reversal returns \<open>B\<close> before \<open>A\<close>.
\<close>

theorem tie_order_counterexample:
  "cases ex_finder_tie = [ex_case_A, ex_case_B] \<and>
   ex_argsort [3, 3] = [0, 1] \<and>
   fst (find_similar_by_text ex_cosine ex_argsort ex_finder_tie ''murder under section 302'' 5)
     = Inr [(ex_case_B, 3), (ex_case_A, 3)] \<and>
   fst (find_similar ex_repr ex_cosine ex_argsort ex_finder_tie ex_case_C 5 True)
     = [(ex_case_B, 3), (ex_case_A, 3)]"
  by code_simp

subsection \<open>The normalizer\<close>

lemma take_upper_len: "take_upper s = Some (a, r) \<Longrightarrow> length s = Suc (length r)"
  by (cases s) (auto simp: take_upper_def split: if_splits)

lemma take_dot_len: "take_dot s = Some r \<Longrightarrow> length s = Suc (length r)"
  by (cases s) (auto simp: take_dot_def split: if_splits)

lemma lit_ci_len: "lit_ci p s = Some r \<Longrightarrow> length s = length p + length r"
  by (induction p s rule: lit_ci.induct) (auto split: if_splits)

lemma match_abbrev3_shrinks:
  assumes "match_abbrev3 prev s = Some (repl, rest)"
  shows "length repl + length rest < length s"
proof -
  from assms obtain a s1 s2 b s3 s4 c where
    1: "take_upper s = Some (a, s1)" and 2: "take_dot s1 = Some s2"
    and 3: "take_upper (dropWhile is_space s2) = Some (b, s3)" and 4: "take_dot s3 = Some s4"
    and 5: "take_upper (dropWhile is_space s4) = Some (c, rest)" and 6: "repl = [a, b, c]"
    by (auto simp: match_abbrev3_def split: if_splits option.splits)
  have "length (dropWhile is_space s2) \<le> length s2" "length (dropWhile is_space s4) \<le> length s4"
    by (rule length_dropWhile_le)+
  with take_upper_len [OF 1] take_dot_len [OF 2] take_upper_len [OF 3] take_dot_len [OF 4]
    take_upper_len [OF 5] 6
  show ?thesis by simp
qed

lemma match_abbrev2_shrinks:
  assumes "match_abbrev2 prev s = Some (repl, rest)"
  shows "length repl + length rest < length s"
proof -
  from assms obtain a s1 s2 b where
    1: "take_upper s = Some (a, s1)" and 2: "take_dot s1 = Some s2"
    and 3: "take_upper (dropWhile is_space s2) = Some (b, rest)" and 6: "repl = [a, b]"
    by (auto simp: match_abbrev2_def split: if_splits option.splits)
  have "length (dropWhile is_space s2) \<le> length s2"
    by (rule length_dropWhile_le)
  with take_upper_len [OF 1] take_dot_len [OF 2] take_upper_len [OF 3] 6
  show ?thesis by simp
qed

lemma match_name_shrinks:
  assumes "match_name name abbrev prev s = Some (repl, rest)" and "length abbrev < length name"
  shows "length repl + length rest < length s"
proof -
  from assms(1) have "lit_ci name s = Some rest" "repl = abbrev"
    by (auto simp: match_name_def split: if_splits option.splits)
  with lit_ci_len [of name s rest] assms(2) show ?thesis by simp
qed

lemma match_section_shrinks:
  assumes "match_section prev s = Some (repl, rest)"
  shows "length repl + length rest < length s"
proof -
  from assms obtain s1 where 1: "lit_ci ''section'' s = Some s1"
    by (auto simp: match_section_def split: if_splits option.splits)
  let ?s2 = "dropWhile is_space s1"
  let ?digits = "takeWhile is_digit ?s2"
  let ?s3 = "dropWhile is_digit ?s2"
  from assms 1 have sp: "takeWhile is_space s1 \<noteq> []"
    by (auto simp: match_section_def Let_def split: if_splits)
  have "length (takeWhile is_space s1) + length ?s2 = length s1"
    by (metis length_append takeWhile_dropWhile_id)
  with sp have a: "length ?s2 < length s1" by (cases "takeWhile is_space s1") auto
  have b: "length ?digits + length ?s3 = length ?s2"
    by (metis length_append takeWhile_dropWhile_id)
  from assms 1 sp have "(repl = ?digits \<and> rest = ?s3) \<or> (\<exists>l. ?s3 = l # rest \<and> repl = ?digits @ [l])"
    by (auto simp: match_section_def Let_def split: if_splits option.splits list.splits)
  then have "length repl + length rest = length ?digits + length ?s3" by auto
  with a b lit_ci_len [OF 1] show ?thesis by simp
qed

lemma re_sub_no_match: "matches_nowhere m prev s \<Longrightarrow> re_sub m prev s = s"
  by (induction s arbitrary: prev) auto

lemma re_sub_length:
  assumes shr: "\<And>prev s repl rest. m prev s = Some (repl, rest) \<Longrightarrow> length repl + length rest < length s"
  shows "length (re_sub m prev s) \<le> length s \<and>
         (\<not> matches_nowhere m prev s \<longrightarrow> length (re_sub m prev s) < length s)"
proof (induction "length s" arbitrary: s prev rule: less_induct)
  case less
  show ?case
  proof (cases s)
    case Nil
    then show ?thesis by simp
  next
    case (Cons c cs)
    show ?thesis
    proof (cases "m prev (c # cs)")
      case None
      from less [of cs "Some c"] Cons have "length (re_sub m (Some c) cs) \<le> length cs"
        and "\<not> matches_nowhere m (Some c) cs \<longrightarrow> length (re_sub m (Some c) cs) < length cs"
        by simp_all
      with None Cons show ?thesis by simp
    next
      case (Some p)
      obtain repl rest where p: "p = (repl, rest)" by (cases p)
      let ?n = "length (c # cs) - length rest"
      from shr [of prev "c # cs" repl rest] Some p
      have l: "length repl + length rest < length (c # cs)" by simp
      from less [of "drop (?n - 1) cs"] Cons
      have "length (re_sub m (Some ((c # cs) ! (?n - 1))) (drop (?n - 1) cs)) \<le> length (drop (?n - 1) cs)"
        by simp
      moreover from l have "length (drop (?n - 1) cs) = length rest" by simp
      ultimately have "length (re_sub m prev (c # cs)) \<le> length repl + length rest"
        using Some p by (simp add: Let_def)
      with l Cons show ?thesis by simp
    qed
  qed
qed

lemma name_shrinks:
  "match_name ''indian penal code'' ''IPC'' prev s = Some (repl, rest) \<Longrightarrow> length repl + length rest < length s"
  "match_name ''code of criminal procedure'' ''CrPC'' prev s = Some (repl, rest) \<Longrightarrow> length repl + length rest < length s"
  "match_name ''income tax act'' ''IT Act'' prev s = Some (repl, rest) \<Longrightarrow> length repl + length rest < length s"
  by (erule match_name_shrinks, simp)+

lemma re_sub_shrinks:
  "length (re_sub match_abbrev3 prev s) \<le> length s \<and>
     (\<not> matches_nowhere match_abbrev3 prev s \<longrightarrow> length (re_sub match_abbrev3 prev s) < length s)"
  "length (re_sub match_abbrev2 prev s) \<le> length s \<and>
     (\<not> matches_nowhere match_abbrev2 prev s \<longrightarrow> length (re_sub match_abbrev2 prev s) < length s)"
  "length (re_sub match_section prev s) \<le> length s \<and>
     (\<not> matches_nowhere match_section prev s \<longrightarrow> length (re_sub match_section prev s) < length s)"
  "length (re_sub (match_name ''indian penal code'' ''IPC'') prev s) \<le> length s \<and>
     (\<not> matches_nowhere (match_name ''indian penal code'' ''IPC'') prev s \<longrightarrow>
        length (re_sub (match_name ''indian penal code'' ''IPC'') prev s) < length s)"
  "length (re_sub (match_name ''code of criminal procedure'' ''CrPC'') prev s) \<le> length s \<and>
     (\<not> matches_nowhere (match_name ''code of criminal procedure'' ''CrPC'') prev s \<longrightarrow>
        length (re_sub (match_name ''code of criminal procedure'' ''CrPC'') prev s) < length s)"
  "length (re_sub (match_name ''income tax act'' ''IT Act'') prev s) \<le> length s \<and>
     (\<not> matches_nowhere (match_name ''income tax act'' ''IT Act'') prev s \<longrightarrow>
        length (re_sub (match_name ''income tax act'' ''IT Act'') prev s) < length s)"
       apply (rule re_sub_length, erule match_abbrev3_shrinks)
      apply (rule re_sub_length, erule match_abbrev2_shrinks)
     apply (rule re_sub_length, erule match_section_shrinks)
    apply (rule re_sub_length, erule name_shrinks(1))
   apply (rule re_sub_length, erule name_shrinks(2))
  apply (rule re_sub_length, erule name_shrinks(3))
  done

lemma normalize_length: "length (normalize_legal_terms self x) \<le> length x"
proof (cases "x = []")
  case True
  then show ?thesis by (simp add: normalize_legal_terms_def)
next
  case False
  let ?t1 = "re_sub match_abbrev3 None x"
  let ?t2 = "re_sub match_abbrev2 None ?t1"
  let ?t3 = "re_sub match_section None ?t2"
  let ?t4 = "re_sub (match_name ''indian penal code'' ''IPC'') None ?t3"
  let ?t5 = "re_sub (match_name ''code of criminal procedure'' ''CrPC'') None ?t4"
  let ?t6 = "re_sub (match_name ''income tax act'' ''IT Act'') None ?t5"
  have "length ?t1 \<le> length x" using re_sub_shrinks(1) by blast
  moreover have "length ?t2 \<le> length ?t1" using re_sub_shrinks(2) by blast
  moreover have "length ?t3 \<le> length ?t2" using re_sub_shrinks(3) by blast
  moreover have "length ?t4 \<le> length ?t3" using re_sub_shrinks(4) by blast
  moreover have "length ?t5 \<le> length ?t4" using re_sub_shrinks(5) by blast
  moreover have "length ?t6 \<le> length ?t5" using re_sub_shrinks(6) by blast
  ultimately have "length ?t6 \<le> length x" by linarith
  with False show ?thesis by (simp add: normalize_legal_terms_def Let_def)
qed

lemma normalize_match_free: "match_free y \<Longrightarrow> normalize_legal_terms self y = y"
  by (simp add: normalize_legal_terms_def match_free_def re_sub_no_match)

lemma fixpoint_match_free:
  assumes fx: "normalize_legal_terms self y = y"
  shows "match_free y"
proof (cases "y = []")
  case True
  then show ?thesis by (simp add: match_free_def)
next
  case False
  let ?t1 = "re_sub match_abbrev3 None y"
  let ?t2 = "re_sub match_abbrev2 None ?t1"
  let ?t3 = "re_sub match_section None ?t2"
  let ?t4 = "re_sub (match_name ''indian penal code'' ''IPC'') None ?t3"
  let ?t5 = "re_sub (match_name ''code of criminal procedure'' ''CrPC'') None ?t4"
  let ?t6 = "re_sub (match_name ''income tax act'' ''IT Act'') None ?t5"
  from fx False have "?t6 = y" by (simp add: normalize_legal_terms_def Let_def)
  then have l6: "length ?t6 = length y" by simp
  have l1: "length ?t1 \<le> length y" using re_sub_shrinks(1) by blast
  have l2: "length ?t2 \<le> length ?t1" using re_sub_shrinks(2) by blast
  have l3: "length ?t3 \<le> length ?t2" using re_sub_shrinks(3) by blast
  have l4: "length ?t4 \<le> length ?t3" using re_sub_shrinks(4) by blast
  have l5: "length ?t5 \<le> length ?t4" using re_sub_shrinks(5) by blast
  have l6': "length ?t6 \<le> length ?t5" using re_sub_shrinks(6) by blast
  have m1: "matches_nowhere match_abbrev3 None y"
    using re_sub_shrinks(1) [of None y] l2 l3 l4 l5 l6' l6 by linarith
  then have e1: "?t1 = y" by (rule re_sub_no_match)
  have m2: "matches_nowhere match_abbrev2 None y"
    using re_sub_shrinks(2) [of None y] l3 l4 l5 l6' l6 unfolding e1 by linarith
  then have e2: "re_sub match_abbrev2 None y = y" by (rule re_sub_no_match)
  have m3: "matches_nowhere match_section None y"
    using re_sub_shrinks(3) [of None y] l4 l5 l6' l6 unfolding e1 e2 by linarith
  then have e3: "re_sub match_section None y = y" by (rule re_sub_no_match)
  have m4: "matches_nowhere (match_name ''indian penal code'' ''IPC'') None y"
    using re_sub_shrinks(4) [of None y] l5 l6' l6 unfolding e1 e2 e3 by linarith
  then have e4: "re_sub (match_name ''indian penal code'' ''IPC'') None y = y" by (rule re_sub_no_match)
  have m5: "matches_nowhere (match_name ''code of criminal procedure'' ''CrPC'') None y"
    using re_sub_shrinks(5) [of None y] l6' l6 unfolding e1 e2 e3 e4 by linarith
  then have e5: "re_sub (match_name ''code of criminal procedure'' ''CrPC'') None y = y" by (rule re_sub_no_match)
  have m6: "matches_nowhere (match_name ''income tax act'' ''IT Act'') None y"
    using re_sub_shrinks(6) [of None y] l6 unfolding e1 e2 e3 e4 e5 by linarith
  from m1 m2 m3 m4 m5 m6 show ?thesis by (simp add: match_free_def)
qed

lemma normalize_fixpoint_iff: "normalize_legal_terms self y = y \<longleftrightarrow> match_free y"
  using normalize_match_free fixpoint_match_free by blast


text \<open>
  C7 (as the code has it). A substitution never lengthens the text, and it leaves the text
  as it is exactly when its pattern matches nowhere. So the fixed points of the normalizer
  are the texts in which none of the six patterns matches, and normalizing twice is
  normalizing once exactly for the inputs whose normalized text is such a text.
\<close>

theorem normalize_idempotent_iff:
  "normalize_legal_terms self (normalize_legal_terms self x) = normalize_legal_terms self x
   \<longleftrightarrow> match_free (normalize_legal_terms self x)"
  by (rule normalize_fixpoint_iff)

theorem normalize_idempotent_iff_witness:
  "normalize_legal_terms ex_finder ''Section 302 of the Indian Penal Code'' = ''302 of the IPC'' \<and>
   match_free ''302 of the IPC'' \<and>
   normalize_legal_terms ex_finder ''302 of the IPC'' = ''302 of the IPC''"
proof -
  have a: "normalize_legal_terms ex_finder ''Section 302 of the Indian Penal Code'' = ''302 of the IPC''"
    by code_simp
  have b: "match_free ''302 of the IPC''" by code_simp
  from normalize_idempotent_iff [of ex_finder "''Section 302 of the Indian Penal Code''"] b
  have c: "normalize_legal_terms ex_finder ''302 of the IPC'' = ''302 of the IPC''"
    unfolding a by blast
  show ?thesis by (rule conjI [OF a conjI [OF b c]])
qed


text \<open>
  C7 as stated fails: each substitution is one pass over the text, and a replacement can
  complete a new match. \<^verbatim>\<open>"Section Section 302"\<close> becomes \<^verbatim>\<open>"Section 302"\<close>, which in turn
  becomes \<^verbatim>\<open>"302"\<close>.
\<close>

theorem normalize_idempotent_counterexample:
  "normalize_legal_terms ex_finder ''Section Section 302'' = ''Section 302'' \<and>
   normalize_legal_terms ex_finder (normalize_legal_terms ex_finder ''Section Section 302'') = ''302''"
  by code_simp

subsection \<open>The length and the placeholder of the composite\<close>

lemma strip_blank: "strip s = [] \<longleftrightarrow> (\<forall>c\<in>set s. is_space c)"
proof
  assume "strip s = []"
  then have "\<forall>c\<in>set (dropWhile is_space s). is_space c"
    by (simp add: strip_def dropWhile_eq_Nil_conv)
  then have "dropWhile is_space s = []"
    using hd_dropWhile [of is_space s] hd_in_set [of "dropWhile is_space s"] by blast
  then show "\<forall>c\<in>set s. is_space c" by (simp add: dropWhile_eq_Nil_conv)
next
  assume "\<forall>c\<in>set s. is_space c"
  then show "strip s = []" by (auto simp: strip_def dest: set_dropWhileD)
qed

lemma field_chunks_nonblank:
  assumes "p \<in> set (field_chunks rp self v cap w)" and "cap \<le> 1000"
  shows "\<exists>c\<in>set (take 10000 p). \<not> is_space c"
proof -
  let ?n = "normalize_legal_terms self (take cap (flatten_field rp v))"
  from assms(1) have p: "p = ?n" and nb: "strip ?n \<noteq> []"
    by (auto simp: field_chunks_def Let_def split: if_splits)
  have "length ?n \<le> length (take cap (flatten_field rp v))" by (rule normalize_length)
  with assms(2) have "length ?n \<le> 10000" by simp
  then have "take 10000 ?n = ?n" by simp
  with nb p show ?thesis by (simp add: strip_blank)
qed

lemma chunk_if_nonblank:
  assumes "p \<in> set (if b then field_chunks rp self v cap w else [])" and "cap \<le> 1000"
  shows "\<exists>c\<in>set (take 10000 p). \<not> is_space c"
proof (cases b)
  case True
  with assms(1) have "p \<in> set (field_chunks rp self v cap w)" by simp
  then show ?thesis using assms(2) by (rule field_chunks_nonblank)
next
  case False
  with assms(1) show ?thesis by simp
qed

lemma tag_if_nonblank:
  assumes "p \<in> set (if b then [t # ts] else [])" and "\<not> is_space t"
  shows "\<exists>c\<in>set (take 10000 p). \<not> is_space c"
proof (cases b)
  case True
  with assms(1) have "p = t # ts" by simp
  with assms(2) show ?thesis by auto
next
  case False
  with assms(1) show ?thesis by simp
qed

lemma compose_parts_nonblank:
  assumes "p \<in> set (compose_parts rp self kvs)"
  shows "\<exists>c\<in>set (take 10000 p). \<not> is_space c"
proof -
  have T: "\<not> is_space CHR ''T''" and O: "\<not> is_space CHR ''O''" and C: "\<not> is_space CHR ''C''"
    by (simp_all add: is_space_def)
  from assms show ?thesis
    unfolding compose_parts_def Let_def set_append Un_iff append_Cons append_Nil
    by (elim disjE) ((erule chunk_if_nonblank, simp) | (erule tag_if_nonblank, simp add: is_space_def))+
qed


lemma join_sp_hd: "ps \<noteq> [] \<Longrightarrow> \<exists>more. join_sp ps = hd ps @ more"
  by (cases ps rule: join_sp.cases) auto

lemma combined_nonblank:
  assumes "compose_parts rp self kvs \<noteq> []"
  shows "strip (take 10000 (join_sp (compose_parts rp self kvs))) \<noteq> []"
proof -
  let ?ps = "compose_parts rp self kvs"
  from assms have "hd ?ps \<in> set ?ps" by simp
  from compose_parts_nonblank [OF this] obtain c where
    c: "c \<in> set (take 10000 (hd ?ps))" "\<not> is_space c" by blast
  from join_sp_hd [OF assms] obtain more where "join_sp ?ps = hd ?ps @ more" by blast
  then have "take 10000 (join_sp ?ps) = take 10000 (hd ?ps) @ take (10000 - length (hd ?ps)) more"
    by simp
  with c have "c \<in> set (take 10000 (join_sp ?ps))" by simp
  with c(2) show ?thesis by (auto simp: strip_blank)
qed

text \<open>
  C9 (as the code has it). For a case record that is a non-empty dict: when the composer
  produces at least one chunk, the composite is the chunks joined by single spaces and cut
  to its first 10,000 characters (it is never blank then); when it produces none, the
  composite is the placeholder built from \<^verbatim>\<open>case_id\<close>, with \<^verbatim>\<open>unknown\<close> for a missing
  identifier. The empty dict takes the first return of the method and gives
  \<^verbatim>\<open>"Empty case"\<close>.
\<close>

theorem composite_bounded:
  "(kvs \<noteq> [] \<and> compose_parts rp self kvs \<noteq> [] \<longrightarrow>
      prepare_text_for_embedding rp self (JDict kvs) = take 10000 (join_sp (compose_parts rp self kvs)) \<and>
      length (prepare_text_for_embedding rp self (JDict kvs)) \<le> 10000) \<and>
   (kvs \<noteq> [] \<and> compose_parts rp self kvs = [] \<longrightarrow>
      prepare_text_for_embedding rp self (JDict kvs) =
        ''Case '' @ py_str rp (dict_get kvs ''case_id'' (JStr ''unknown'')) @ '' - No extractable text'') \<and>
   prepare_text_for_embedding rp self (JDict []) = ''Empty case''"
proof (intro conjI impI)
  assume a: "kvs \<noteq> [] \<and> compose_parts rp self kvs \<noteq> []"
  let ?j = "join_sp (compose_parts rp self kvs)"
  from a have nb: "strip (take 10000 ?j) \<noteq> []" by (simp add: combined_nonblank)
  then have ne: "take 10000 ?j \<noteq> []" by (auto simp: strip_Nil)
  have t: "(if 10000 < length ?j then take 10000 ?j else ?j) = take 10000 ?j" by simp
  from a nb ne show
    e: "prepare_text_for_embedding rp self (JDict kvs) = take 10000 ?j"
    by (simp add: prepare_text_for_embedding_def Let_def t del: take_all_iff)
  show "length (prepare_text_for_embedding rp self (JDict kvs)) \<le> 10000"
    unfolding e by simp
next
  assume "kvs \<noteq> [] \<and> compose_parts rp self kvs = []"
  then show "prepare_text_for_embedding rp self (JDict kvs) =
        ''Case '' @ py_str rp (dict_get kvs ''case_id'' (JStr ''unknown'')) @ '' - No extractable text''"
    by (simp add: prepare_text_for_embedding_def)
next
  show "prepare_text_for_embedding rp self (JDict []) = ''Empty case''"
    by (simp add: prepare_text_for_embedding_def)
qed

theorem composite_bounded_witness:
  "prepare_text_for_embedding ex_repr ex_finder ex_case_A =
     take 10000 (join_sp (compose_parts ex_repr ex_finder
        [(''case_id'', JStr ''A''), (''summary'', JStr ''murder case IPC 302'')])) \<and>
   length (prepare_text_for_embedding ex_repr ex_finder ex_case_A) \<le> 10000 \<and>
   prepare_text_for_embedding ex_repr ex_finder (JDict [(''case_id'', JStr ''X'')]) =
     ''Case X - No extractable text''"
proof -
  let ?a = "[(''case_id'', JStr ''A''), (''summary'', JStr ''murder case IPC 302'')]"
  let ?x = "[(''case_id'', JStr ''X'')]"
  have h1: "?a \<noteq> [] \<and> compose_parts ex_repr ex_finder ?a \<noteq> []" by code_simp
  have h2: "?x \<noteq> [] \<and> compose_parts ex_repr ex_finder ?x = []" by code_simp
  have g: "''Case '' @ py_str ex_repr (dict_get ?x ''case_id'' (JStr ''unknown'')) @ '' - No extractable text''
      = ''Case X - No extractable text''" by code_simp
  from composite_bounded [of ?a ex_repr ex_finder] h1
  have a: "prepare_text_for_embedding ex_repr ex_finder (JDict ?a) =
       take 10000 (join_sp (compose_parts ex_repr ex_finder ?a)) \<and>
     length (prepare_text_for_embedding ex_repr ex_finder (JDict ?a)) \<le> 10000"
    by blast
  from composite_bounded [of ?x ex_repr ex_finder] h2
  have b: "prepare_text_for_embedding ex_repr ex_finder (JDict ?x) = ''Case X - No extractable text''"
    unfolding g by blast
  from a b show ?thesis unfolding ex_case_A_def by blast
qed


text \<open>
  C9 as stated fails for the empty mapping: no chunk is produced, yet the result is
  \<^verbatim>\<open>"Empty case"\<close> and not the placeholder \<^verbatim>\<open>"Case unknown - No extractable text"\<close>.
\<close>

theorem empty_case_counterexample:
  "join_sp (compose_parts ex_repr ex_finder []) = [] \<and>
   prepare_text_for_embedding ex_repr ex_finder (JDict []) = ''Empty case'' \<and>
   ''Case '' @ py_str ex_repr (dict_get [] ''case_id'' (JStr ''unknown'')) @ '' - No extractable text''
     = ''Case unknown - No extractable text''"
  by code_simp

end
